theory Spec2Isabelle
  imports Complex_Main
begin

section \<open>Values, errors and the connection object\<close>

text \<open>
  The wrapper class of \<^verbatim>\<open>src/app/client-wrapper.js\<close> checks the types of its arguments at
  run time (\<^verbatim>\<open>typeof\<close>, \<^verbatim>\<open>instanceof Array\<close>, \<^verbatim>\<open>Buffer.isBuffer\<close>, \<^verbatim>\<open>assert.match\<close>), so an
  argument in such a position is a dynamically typed value. Array elements are strings.
  A \<^verbatim>\<open>Buffer\<close> holds bytes; a \<^typ>\<open>char\<close> is one byte.
\<close>

datatype jsval =
    JUndefined
  | JNull
  | JBool bool
  | JNum int
  | JStr string
  | JBuffer "char list"
  | JArray "string list"

text \<open>Every \<^verbatim>\<open>assert\<close> of the source throws the same exception class.\<close>

datatype error = AssertionError

text \<open>The cached state of one channel, as \<^verbatim>\<open>lib.chanData(channel)\<close> returns it.\<close>

record chan_data =
  topic :: "string option"
  topicBy :: "string option"

text \<open>A call that the wrapper makes on the connection object \<^verbatim>\<open>this.lib\<close>.\<close>

datatype lib_call =
    Send "string list"
  | Join string
  | Part string "string option"

text \<open>
  The connection object: its \<^verbatim>\<open>nick\<close> property, its channel cache read through
  \<^verbatim>\<open>chanData\<close>, and the calls received so far, oldest first.
\<close>

record lib =
  nick :: string
  chanData :: "string \<Rightarrow> chan_data option"
  calls :: "lib_call list"

type_synonym outcome = "(error + jsval) \<times> lib"

definition send :: "lib \<Rightarrow> string list \<Rightarrow> lib" where
  "send l args = l\<lparr>calls := calls l @ [Send args]\<rparr>"

definition throw :: "lib \<Rightarrow> outcome" where
  "throw l = (Inl AssertionError, l)"

definition return_undefined :: "lib \<Rightarrow> outcome" where
  "return_undefined l = (Inr JUndefined, l)"

section \<open>String primitives\<close>

text \<open>\<^verbatim>\<open>s.split(' ')\<close>: cut at every single space; empty pieces are kept.\<close>

fun split_space :: "string \<Rightarrow> string list" where
  "split_space [] = [[]]"
| "split_space (c # cs) =
     (if c = CHR '' '' then [] # split_space cs
      else (case split_space cs of
              [] \<Rightarrow> [[c]]
            | t # ts \<Rightarrow> (c # t) # ts))"

text \<open>\<^verbatim>\<open>s.repeat(n)\<close>.\<close>

definition repeat :: "string \<Rightarrow> nat \<Rightarrow> string" where
  "repeat s n = concat (replicate n s)"

text \<open>\<^verbatim>\<open>xs.slice(a, b)\<close> for \<open>0 \<le> a \<le> b\<close>: both ends are clamped to the length.\<close>

definition slice :: "'a list \<Rightarrow> nat \<Rightarrow> nat \<Rightarrow> 'a list" where
  "slice xs a b = take (b - a) (drop a xs)"

text \<open>
  The regular expressions of the source are alternatives of literal strings, searched
  anywhere in the subject (no anchors), two of them with the flag \<^verbatim>\<open>i\<close>, which compares
  the upper-case forms of the characters.
\<close>

definition toUpperCase :: "char \<Rightarrow> char" where
  "toUpperCase c =
     (case map_of (zip ''abcdefghijklmnopqrstuvwxyz'' ''ABCDEFGHIJKLMNOPQRSTUVWXYZ'') c of
        None \<Rightarrow> c
      | Some u \<Rightarrow> u)"

fun starts_with :: "string \<Rightarrow> string \<Rightarrow> bool" where
  "starts_with [] s = True"
| "starts_with (p # ps) [] = False"
| "starts_with (p # ps) (c # cs) = (p = c \<and> starts_with ps cs)"

fun occurs_in :: "string \<Rightarrow> string \<Rightarrow> bool" where
  "occurs_in p [] = (p = [])"
| "occurs_in p (c # cs) = (starts_with p (c # cs) \<or> occurs_in p cs)"

record regexp =
  alternatives :: "string list"
  ignoreCase :: bool

definition regexp_test :: "regexp \<Rightarrow> string \<Rightarrow> bool" where
  "regexp_test re s =
     (if ignoreCase re
      then list_ex (\<lambda>a. occurs_in (map toUpperCase a) (map toUpperCase s)) (alternatives re)
      else list_ex (\<lambda>a. occurs_in a s) (alternatives re))"

text \<open>
  \<^verbatim>\<open>assert.match(value, re)\<close> passes when the value is a string that the expression
  matches; a value of another type fails it.
\<close>

definition assert_match :: "jsval \<Rightarrow> regexp \<Rightarrow> bool" where
  "assert_match v re = (case v of JStr s \<Rightarrow> regexp_test re s | _ \<Rightarrow> False)"

text \<open>The string behind a value that has passed one of the two checks below.\<close>

definition the_string :: "jsval \<Rightarrow> string" where
  "the_string v = (case v of JStr s \<Rightarrow> s | _ \<Rightarrow> [])"

definition typeof_string :: "jsval \<Rightarrow> bool" where
  "typeof_string v = (case v of JStr s \<Rightarrow> True | _ \<Rightarrow> False)"

text \<open>
  The idiom that opens \<^verbatim>\<open>join\<close>, \<^verbatim>\<open>part\<close>, \<^verbatim>\<open>kick\<close> and \<^verbatim>\<open>setPrivileges\<close>: a string
  argument is replaced by its \<^verbatim>\<open>split(' ')\<close>, then \<^verbatim>\<open>assert(x instanceof Array)\<close>.
  \<open>None\<close> stands for the failed assertion.
\<close>

definition split_if_string :: "jsval \<Rightarrow> jsval" where
  "split_if_string v = (case v of JStr s \<Rightarrow> JArray (split_space s) | _ \<Rightarrow> v)"

definition instanceof_Array :: "jsval \<Rightarrow> string list option" where
  "instanceof_Array v = (case v of JArray xs \<Rightarrow> Some xs | _ \<Rightarrow> None)"

section \<open>setPrivileges\<close>

definition batch_size :: nat where
  "batch_size = 6"

text \<open>\<^verbatim>\<open>Math.ceil(nicks.length / batch_size)\<close>.\<close>

definition batch_count :: "nat \<Rightarrow> nat" where
  "batch_count n = nat \<lceil>real n / real batch_size\<rceil>"

definition re_action :: regexp where
  "re_action = \<lparr>alternatives = [''+'', ''-''], ignoreCase = False\<rparr>"

definition re_privilege :: regexp where
  "re_privilege = \<lparr>alternatives = [''v'', ''h'', ''o''], ignoreCase = True\<rparr>"

text \<open>The body of the \<^verbatim>\<open>for\<close> loop, for the batch index \<open>i\<close>.\<close>

definition batch_args :: "string \<Rightarrow> string \<Rightarrow> string \<Rightarrow> string list \<Rightarrow> nat \<Rightarrow> string list" where
  "batch_args channel action privilege nicks i =
     (let batch_offset = i * batch_size;
          batch_nicks = slice nicks batch_offset (batch_offset + batch_size);
          batch_mode = action @ repeat privilege (length batch_nicks)
      in [''MODE'', channel, batch_mode] @ batch_nicks)"

function send_batches ::
  "lib \<Rightarrow> string \<Rightarrow> string \<Rightarrow> string \<Rightarrow> string list \<Rightarrow> nat \<Rightarrow> nat \<Rightarrow> lib" where
  "send_batches l channel action privilege nicks count i =
     (if i < count
      then send_batches (send l (batch_args channel action privilege nicks i))
             channel action privilege nicks count (Suc i)
      else l)"
  by pat_completeness auto
termination
  by (relation "measure (\<lambda>(l, channel, action, privilege, nicks, count, i). count - i)") auto

declare send_batches.simps [simp del]

definition setPrivileges :: "lib \<Rightarrow> jsval \<Rightarrow> jsval \<Rightarrow> jsval \<Rightarrow> jsval \<Rightarrow> outcome" where
  "setPrivileges l channel action privilege nicks =
     (if \<not> typeof_string channel then throw l
      else if \<not> assert_match action re_action then throw l
      else if \<not> assert_match privilege re_privilege then throw l
      else (case instanceof_Array (split_if_string nicks) of
              None \<Rightarrow> throw l
            | Some ns \<Rightarrow>
                return_undefined
                  (send_batches l (the_string channel) (the_string action) (the_string privilege)
                     ns (batch_count (length ns)) 0)))"

definition giveOps :: "lib \<Rightarrow> jsval \<Rightarrow> jsval \<Rightarrow> outcome" where
  "giveOps l channel nicks = setPrivileges l channel (JStr ''+'') (JStr ''o'') nicks"

definition takeOps :: "lib \<Rightarrow> jsval \<Rightarrow> jsval \<Rightarrow> outcome" where
  "takeOps l channel nicks = setPrivileges l channel (JStr ''-'') (JStr ''o'') nicks"

definition giveHops :: "lib \<Rightarrow> jsval \<Rightarrow> jsval \<Rightarrow> outcome" where
  "giveHops l channel nicks = setPrivileges l channel (JStr ''+'') (JStr ''h'') nicks"

definition takeHops :: "lib \<Rightarrow> jsval \<Rightarrow> jsval \<Rightarrow> outcome" where
  "takeHops l channel nicks = setPrivileges l channel (JStr ''-'') (JStr ''h'') nicks"

definition giveVoices :: "lib \<Rightarrow> jsval \<Rightarrow> jsval \<Rightarrow> outcome" where
  "giveVoices l channel nicks = setPrivileges l channel (JStr ''+'') (JStr ''v'') nicks"

definition takeVoices :: "lib \<Rightarrow> jsval \<Rightarrow> jsval \<Rightarrow> outcome" where
  "takeVoices l channel nicks = setPrivileges l channel (JStr ''-'') (JStr ''v'') nicks"

section \<open>join, part and kick\<close>

text \<open>\<^verbatim>\<open>xs.forEach(f)\<close>, where \<open>f\<close> acts on the connection object.\<close>

fun forEach :: "'a list \<Rightarrow> ('a \<Rightarrow> lib \<Rightarrow> lib) \<Rightarrow> lib \<Rightarrow> lib" where
  "forEach [] f l = l"
| "forEach (x # xs) f l = forEach xs f (f x l)"

definition join :: "lib \<Rightarrow> jsval \<Rightarrow> outcome" where
  "join l channels =
     (case instanceof_Array (split_if_string channels) of
        None \<Rightarrow> throw l
      | Some cs \<Rightarrow>
          return_undefined (forEach cs (\<lambda>channel l'. l'\<lparr>calls := calls l' @ [Join channel]\<rparr>) l))"

definition part :: "lib \<Rightarrow> jsval \<Rightarrow> string option \<Rightarrow> outcome" where
  "part l channels message =
     (case instanceof_Array (split_if_string channels) of
        None \<Rightarrow> throw l
      | Some cs \<Rightarrow>
          return_undefined
            (forEach cs (\<lambda>channel l'. l'\<lparr>calls := calls l' @ [Part channel message]\<rparr>) l))"

text \<open>
  An optional string argument is \<open>None\<close> when the caller leaves it out (\<^verbatim>\<open>undefined\<close>).
  \<^verbatim>\<open>if (x)\<close> on such an argument holds for a string that is not empty.
\<close>

definition truthy :: "string option \<Rightarrow> bool" where
  "truthy x = (case x of None \<Rightarrow> False | Some s \<Rightarrow> s \<noteq> [])"

definition kick_command :: "string \<Rightarrow> string option \<Rightarrow> string \<Rightarrow> string list" where
  "kick_command channel reason n =
     (let command = [''KICK'', channel, n]
      in if truthy reason then command @ [the reason] else command)"

definition kick :: "lib \<Rightarrow> string \<Rightarrow> jsval \<Rightarrow> string option \<Rightarrow> outcome" where
  "kick l channel nicks reason =
     (case instanceof_Array (split_if_string nicks) of
        None \<Rightarrow> throw l
      | Some ns \<Rightarrow>
          return_undefined (forEach ns (\<lambda>n l'. send l' (kick_command channel reason n)) l))"

section \<open>Nick and topic\<close>

definition getNick :: "lib \<Rightarrow> outcome" where
  "getNick l = (Inr (JStr (nick l)), l)"

definition setNick :: "lib \<Rightarrow> string \<Rightarrow> outcome" where
  "setNick l n = return_undefined (send l [''NICK'', n])"

text \<open>
  \<^verbatim>\<open>getTopic\<close> declares \<^verbatim>\<open>topic\<close> without a value, reads the channel data and returns the
  local variable; the connection object is only read.
\<close>

definition getTopic :: "lib \<Rightarrow> string \<Rightarrow> outcome" where
  "getTopic l channel =
     (let data = chanData l channel
      in case data of
           None \<Rightarrow> (Inr JUndefined, l)
         | Some d \<Rightarrow>
             if truthy (topic d)
             then let t = the (topic d);
                      t = (if truthy (topicBy d) then t @ '' set by '' @ the (topicBy d) else t)
                  in (Inr (JStr t), l)
             else (Inr JUndefined, l))"

definition setTopic :: "lib \<Rightarrow> string \<Rightarrow> string \<Rightarrow> outcome" where
  "setTopic l channel message = return_undefined (send l [''TOPIC'', channel, message])"

section \<open>sendMessage\<close>

definition CR :: char where
  "CR = CHR 0x0D"

definition LF :: char where
  "LF = CHR 0x0A"

definition is_crlf :: "char \<Rightarrow> bool" where
  "is_crlf c = (c = CR \<or> c = LF)"

text \<open>
  \<^verbatim>\<open>s.split(/[\r\n]+/)\<close>: the pieces between the maximal runs of CR and LF characters.
  A run at the start or at the end of the string leaves an empty piece there, and the
  empty string gives one empty piece. \<open>cur\<close> holds the piece being read, reversed.
\<close>

function split_lines_from :: "string \<Rightarrow> string \<Rightarrow> string list" where
  "split_lines_from cur [] = [rev cur]"
| "split_lines_from cur (c # cs) =
     (if is_crlf c then rev cur # split_lines_from [] (dropWhile is_crlf cs)
      else split_lines_from (c # cur) cs)"
  by pat_completeness auto
termination
  by (relation "measure (\<lambda>(cur, s). length s)")
     (auto simp: le_imp_less_Suc length_dropWhile_le)

definition split_lines :: "string \<Rightarrow> string list" where
  "split_lines s = split_lines_from [] s"

text \<open>
  \<^verbatim>\<open>buffer.toString()\<close> decodes UTF-8. A string of the model is the sequence of the
  UTF-8 bytes of its text, so a well-formed sequence of the buffer is kept as it is, and
  every ill-formed part of the buffer is replaced by U+FFFD (the bytes EF BF BD): a byte
  that cannot start a sequence, a sequence cut short by a byte outside the range that may
  follow (that byte is then read again as a start byte), and a sequence cut short by the
  end of the buffer. The state holds the number of bytes still needed, the range allowed
  for the next one, and the bytes of the sequence read so far.
\<close>

record utf8_state =
  needed :: nat
  lower :: nat
  upper :: nat
  pending :: "char list"

definition idle :: utf8_state where
  "idle = \<lparr>needed = 0, lower = 0x80, upper = 0xBF, pending = []\<rparr>"

definition REPLACEMENT :: string where
  "REPLACEMENT = [CHR 0xEF, CHR 0xBF, CHR 0xBD]"

definition start_byte :: "char \<Rightarrow> string \<times> utf8_state" where
  "start_byte b =
     (let n = (of_char b :: nat)
      in if n \<le> 0x7F then ([b], idle)
         else if 0xC2 \<le> n \<and> n \<le> 0xDF
           then ([], \<lparr>needed = 1, lower = 0x80, upper = 0xBF, pending = [b]\<rparr>)
         else if 0xE0 \<le> n \<and> n \<le> 0xEF
           then ([], \<lparr>needed = 2, lower = (if n = 0xE0 then 0xA0 else 0x80),
                      upper = (if n = 0xED then 0x9F else 0xBF), pending = [b]\<rparr>)
         else if 0xF0 \<le> n \<and> n \<le> 0xF4
           then ([], \<lparr>needed = 3, lower = (if n = 0xF0 then 0x90 else 0x80),
                      upper = (if n = 0xF4 then 0x8F else 0xBF), pending = [b]\<rparr>)
         else (REPLACEMENT, idle))"

definition decode_byte :: "utf8_state \<Rightarrow> char \<Rightarrow> string \<times> utf8_state" where
  "decode_byte st b =
     (let n = (of_char b :: nat)
      in if needed st = 0 then start_byte b
         else if lower st \<le> n \<and> n \<le> upper st
           then (if needed st = 1 then (pending st @ [b], idle)
                 else ([], \<lparr>needed = needed st - 1, lower = 0x80, upper = 0xBF,
                            pending = pending st @ [b]\<rparr>))
         else (case start_byte b of (out, st') \<Rightarrow> (REPLACEMENT @ out, st')))"

fun utf8_decode :: "utf8_state \<Rightarrow> char list \<Rightarrow> string" where
  "utf8_decode st [] = (if needed st = 0 then [] else REPLACEMENT)"
| "utf8_decode st (b # bs) =
     (case decode_byte st b of (out, st') \<Rightarrow> out @ utf8_decode st' bs)"

definition toString :: "char list \<Rightarrow> string" where
  "toString b = utf8_decode idle b"

definition re_type :: regexp where
  "re_type = \<lparr>alternatives = [''PRIVMSG'', ''NOTICE''], ignoreCase = True\<rparr>"

text \<open>The \<^verbatim>\<open>if\<close>/\<^verbatim>\<open>else if\<close> that turns the \<^verbatim>\<open>lines\<close> argument into an array.\<close>

definition split_message :: "jsval \<Rightarrow> jsval" where
  "split_message lines =
     (case lines of
        JStr s \<Rightarrow> JArray (split_lines s)
      | JBuffer b \<Rightarrow> JArray (filter (\<lambda>line. length line \<noteq> 0) (split_lines (toString b)))
      | _ \<Rightarrow> lines)"

definition add_prefix :: "string option \<Rightarrow> string list \<Rightarrow> string list" where
  "add_prefix prefix lines =
     (case prefix of
        None \<Rightarrow> lines
      | Some p \<Rightarrow> map (\<lambda>line. p @ '' '' @ line) lines)"

definition sendMessage :: "lib \<Rightarrow> jsval \<Rightarrow> jsval \<Rightarrow> jsval \<Rightarrow> string option \<Rightarrow> outcome" where
  "sendMessage l type target lines prefix =
     (if \<not> typeof_string target then throw l
      else if \<not> assert_match type re_type then throw l
      else (case instanceof_Array (split_message lines) of
              None \<Rightarrow> throw l
            | Some ls \<Rightarrow>
                return_undefined
                  (forEach (add_prefix prefix ls)
                     (\<lambda>line l'. send l' [the_string type, the_string target, line]) l)))"

definition tell :: "lib \<Rightarrow> jsval \<Rightarrow> jsval \<Rightarrow> string option \<Rightarrow> outcome" where
  "tell l target message prefix = sendMessage l (JStr ''PRIVMSG'') target message prefix"

definition notify :: "lib \<Rightarrow> jsval \<Rightarrow> jsval \<Rightarrow> string option \<Rightarrow> outcome" where
  "notify l target message prefix = sendMessage l (JStr ''NOTICE'') target message prefix"

section \<open>Example states\<close>

text \<open>A connection that has joined no channel and has received no call.\<close>

definition l0 :: lib where
  "l0 = \<lparr>nick = ''rxbot'', chanData = (\<lambda>channel. None), calls = []\<rparr>"

text \<open>
  The same connection with a cached topic for every channel: one set by alice, one with
  no setter on record, and one that has been cleared (the topic is the empty string).
\<close>

definition l_hello :: lib where
  "l_hello =
     l0\<lparr>chanData := (\<lambda>channel. Some \<lparr>topic = Some ''hello'', topicBy = Some ''alice''\<rparr>)\<rparr>"

definition l_anonymous :: lib where
  "l_anonymous =
     l0\<lparr>chanData := (\<lambda>channel. Some \<lparr>topic = Some ''hello'', topicBy = None\<rparr>)\<rparr>"

definition l_cleared :: lib where
  "l_cleared =
     l0\<lparr>chanData := (\<lambda>channel. Some \<lparr>topic = Some [], topicBy = Some ''alice''\<rparr>)\<rparr>"

section \<open>Properties of setPrivileges\<close>

lemma batch_count_eq: "batch_count n = (n + 5) div 6"
proof -
  have "\<lceil>real n / real batch_size\<rceil> = \<lceil>real_of_int (int n) / real_of_int 6\<rceil>"
    by (simp add: batch_size_def)
  also have "\<dots> = - (- int n div 6)"
    by (rule ceiling_divide_eq_div)
  also have "\<dots> = int ((n + 5) div 6)"
    by (simp add: zdiv_int)
  finally show ?thesis
    by (simp add: batch_count_def)
qed

lemma send_batches_calls:
  "send_batches l c a p ns k i =
     l\<lparr>calls := calls l @ map (\<lambda>j. Send (batch_args c a p ns j)) [i..<k]\<rparr>"
proof (induction l c a p ns k i rule: send_batches.induct)
  case (1 l c a p ns k i)
  show ?case
  proof (cases "i < k")
    case True
    with 1 show ?thesis
      by (subst send_batches.simps) (simp add: send_def upt_conv_Cons)
  next
    case False
    then show ?thesis
      by (subst send_batches.simps) simp
  qed
qed

lemma concat_slices:
  "concat (map (\<lambda>i. slice xs (i * m) (i * m + m)) [0..<k]) = take (k * m) xs"
proof (induction k)
  case 0
  show ?case by simp
next
  case (Suc k)
  have "take (k * m + m) xs = take (k * m) xs @ take m (drop (k * m) xs)"
    by (rule take_add)
  with Suc show ?case
    by (simp add: slice_def add.commute)
qed

lemma setPrivileges_accepted:
  assumes "typeof_string channel" and "assert_match action re_action"
    and "assert_match privilege re_privilege"
    and "instanceof_Array (split_if_string nicks) = Some ns"
  shows "setPrivileges l channel action privilege nicks =
           (Inr JUndefined,
            l\<lparr>calls := calls l @
                 map (\<lambda>i. Send (batch_args (the_string channel) (the_string action)
                                   (the_string privilege) ns i))
                   [0..<batch_count (length ns)]\<rparr>)"
  using assms
  by (simp add: setPrivileges_def return_undefined_def send_batches_calls)

lemma action_char_matches:
  "a = CHR ''+'' \<or> a = CHR ''-'' \<Longrightarrow> assert_match (JStr [a]) re_action"
  by (auto simp: assert_match_def regexp_test_def re_action_def)

lemma privilege_letter_matches:
  assumes "p \<in> set ''vhoVHO''"
  shows "assert_match (JStr [p]) re_privilege"
proof -
  from assms have "p = CHR ''v'' \<or> p = CHR ''h'' \<or> p = CHR ''o''
                 \<or> p = CHR ''V'' \<or> p = CHR ''H'' \<or> p = CHR ''O''"
    by simp
  then show ?thesis
    by (elim disjE)
       (simp_all add: assert_match_def regexp_test_def re_privilege_def toUpperCase_def)
qed

text \<open>
  Claim C1. For a channel string, an action character \<open>+\<close> or \<open>-\<close>, a privilege letter
  among v, h, o (in either case) and an array of \<open>N\<close> nicks, \<^verbatim>\<open>setPrivileges\<close> returns
  normally and sends exactly \<open>\<lceil>N / 6\<rceil>\<close> commands. The \<open>i\<close>-th command is
  \<^verbatim>\<open>MODE\<close>, the channel, the action character followed by the privilege letter once per
  nick of the \<open>i\<close>-th slice, then that slice; the slices are the consecutive runs of at
  most six nicks, their concatenation is the nick list, and no nick gives no command.
\<close>

theorem setPrivileges_batches:
  assumes act: "a = CHR ''+'' \<or> a = CHR ''-''" and priv: "p \<in> set ''vhoVHO''"
  shows "\<exists>cmds.
           setPrivileges l (JStr channel) (JStr [a]) (JStr [p]) (JArray nicks) =
             (Inr JUndefined, l\<lparr>calls := calls l @ map Send cmds\<rparr>)
         \<and> int (length cmds) = \<lceil>real (length nicks) / 6\<rceil>
         \<and> (\<forall>i < length cmds.
               length (slice nicks (6 * i) (6 * i + 6)) \<le> 6
             \<and> cmds ! i =
                 [''MODE'', channel, a # replicate (length (slice nicks (6 * i) (6 * i + 6))) p]
                   @ slice nicks (6 * i) (6 * i + 6))
         \<and> concat (map (drop 3) cmds) = nicks
         \<and> (nicks = [] \<longrightarrow> cmds = [])"
proof -
  define k where "k = batch_count (length nicks)"
  define cmds where "cmds = map (batch_args channel [a] [p] nicks) [0..<k]"
  have len: "length cmds = k"
    by (simp add: cmds_def)
  have run: "setPrivileges l (JStr channel) (JStr [a]) (JStr [p]) (JArray nicks) =
               (Inr JUndefined, l\<lparr>calls := calls l @ map Send cmds\<rparr>)"
    using action_char_matches [OF act] privilege_letter_matches [OF priv]
    by (simp add: setPrivileges_accepted [where ns = nicks] typeof_string_def the_string_def
          split_if_string_def instanceof_Array_def cmds_def k_def comp_def)
  have count: "int (length cmds) = \<lceil>real (length nicks) / 6\<rceil>"
    by (simp add: len k_def batch_count_def batch_size_def)
  have each: "\<forall>i < length cmds.
               length (slice nicks (6 * i) (6 * i + 6)) \<le> 6
             \<and> cmds ! i =
                 [''MODE'', channel, a # replicate (length (slice nicks (6 * i) (6 * i + 6))) p]
                   @ slice nicks (6 * i) (6 * i + 6)"
    by (simp add: cmds_def batch_args_def batch_size_def repeat_def slice_def Let_def
          mult.commute)
  have "map (drop 3) cmds = map (\<lambda>i. slice nicks (i * 6) (i * 6 + 6)) [0..<k]"
    by (simp add: cmds_def batch_args_def batch_size_def Let_def)
  then have "concat (map (drop 3) cmds) = take (k * 6) nicks"
    by (simp only: concat_slices)
  moreover have "length nicks \<le> k * 6"
    by (simp add: k_def batch_count_eq)
  ultimately have cat: "concat (map (drop 3) cmds) = nicks"
    by simp
  have none: "nicks = [] \<longrightarrow> cmds = []"
    by (simp add: cmds_def k_def batch_count_eq)
  from run count each cat none show ?thesis
    by blast
qed

theorem setPrivileges_batches_witness:
  "calls (snd (setPrivileges l0 (JStr ''#rx'') (JStr ''+'') (JStr ''o'')
            (JArray [''n1'', ''n2'', ''n3'', ''n4'', ''n5'', ''n6'', ''n7'']))) =
     [Send [''MODE'', ''#rx'', ''+oooooo'', ''n1'', ''n2'', ''n3'', ''n4'', ''n5'', ''n6''],
      Send [''MODE'', ''#rx'', ''+o'', ''n7'']]"
proof -
  let ?ns = "[''n1'', ''n2'', ''n3'', ''n4'', ''n5'', ''n6'', ''n7'']"
  have a: "CHR ''+'' = CHR ''+'' \<or> CHR ''+'' = CHR ''-''"
    by simp
  have p: "CHR ''o'' \<in> set ''vhoVHO''"
    by simp
  from setPrivileges_batches [OF a p, of l0 "''#rx''" ?ns]
  obtain cmds where
    run: "setPrivileges l0 (JStr ''#rx'') (JStr ''+'') (JStr ''o'') (JArray ?ns) =
            (Inr JUndefined, l0\<lparr>calls := calls l0 @ map Send cmds\<rparr>)"
    and count: "int (length cmds) = \<lceil>real (length ?ns) / 6\<rceil>"
    and each: "\<And>i. i < length cmds \<Longrightarrow>
               cmds ! i =
                 [''MODE'', ''#rx'',
                  CHR ''+'' # replicate (length (slice ?ns (6 * i) (6 * i + 6))) CHR ''o'']
                   @ slice ?ns (6 * i) (6 * i + 6)"
    by blast
  have "\<lceil>real (length ?ns) / 6\<rceil> = 2"
    by (simp add: ceiling_eq_iff)
  with count have len: "length cmds = 2"
    by simp
  have c0: "cmds ! 0 =
      [''MODE'', ''#rx'', ''+oooooo'', ''n1'', ''n2'', ''n3'', ''n4'', ''n5'', ''n6'']"
    using each [of 0] len by (simp add: slice_def)
  have c1: "cmds ! 1 = [''MODE'', ''#rx'', ''+o'', ''n7'']"
    using each [of 1] len by (simp add: slice_def)
  obtain x y where "cmds = [x, y]"
    using len by (metis length_0_conv length_Suc_conv numeral_2_eq_2)
  with c0 c1 have "cmds =
     [[''MODE'', ''#rx'', ''+oooooo'', ''n1'', ''n2'', ''n3'', ''n4'', ''n5'', ''n6''],
      [''MODE'', ''#rx'', ''+o'', ''n7'']]"
    by simp
  with run show ?thesis
    by (simp add: l0_def)
qed

section \<open>Properties of the list idiom\<close>

lemma split_space_not_Nil: "split_space s \<noteq> []"
  by (induction s) (auto split: list.splits)

lemma split_space_join: "concat (map (\<lambda>t. t @ '' '') (split_space s)) = s @ '' ''"
proof (induction s)
  case Nil
  show ?case by simp
next
  case (Cons c cs)
  then show ?case
    by (cases "split_space cs") (auto simp: split_space_not_Nil)
qed

lemma split_space_no_space: "t \<in> set (split_space s) \<Longrightarrow> CHR '' '' \<notin> set t"
proof (induction s arbitrary: t)
  case Nil
  then show ?case by simp
next
  case (Cons c cs)
  then show ?case
    by (cases "split_space cs") (auto split: if_splits)
qed

lemma length_split_space: "length (split_space s) = Suc (count_list s CHR '' '')"
proof (induction s)
  case Nil
  show ?case by simp
next
  case (Cons c cs)
  then show ?case
    by (cases "split_space cs") auto
qed

text \<open>
  Claim C3, as the code has it. A string argument of \<^verbatim>\<open>join\<close>, \<^verbatim>\<open>part\<close>, \<^verbatim>\<open>kick\<close> and
  \<^verbatim>\<open>setPrivileges\<close> is cut at every single space character: the call behaves as the call
  on the array of the pieces, no piece holds a space, the pieces followed by one space
  each spell the input followed by one space (so the order is kept and nothing else is
  dropped), and there is one piece more than there are spaces, so that the pieces between
  adjacent spaces are empty strings. The string \<open>alice bob   carol\<close> gives five pieces.
\<close>

theorem split_space_pieces:
  "join l (JStr s) = join l (JArray (split_space s))
   \<and> part l (JStr s) message = part l (JArray (split_space s)) message
   \<and> kick l channel (JStr s) reason = kick l channel (JArray (split_space s)) reason
   \<and> setPrivileges l c a p (JStr s) = setPrivileges l c a p (JArray (split_space s))
   \<and> (\<forall>t \<in> set (split_space s). CHR '' '' \<notin> set t)
   \<and> concat (map (\<lambda>t. t @ '' '') (split_space s)) = s @ '' ''
   \<and> length (split_space s) = Suc (count_list s CHR '' '')
   \<and> split_space ''alice bob   carol'' = [''alice'', ''bob'', [], [], ''carol'']"
proof -
  have same: "instanceof_Array (split_if_string (JStr s)) =
              instanceof_Array (split_if_string (JArray (split_space s)))"
    by (simp add: split_if_string_def)
  have "join l (JStr s) = join l (JArray (split_space s))"
    by (simp only: join_def same)
  moreover have "part l (JStr s) message = part l (JArray (split_space s)) message"
    by (simp only: part_def same)
  moreover have
    "kick l channel (JStr s) reason = kick l channel (JArray (split_space s)) reason"
    by (simp only: kick_def same)
  moreover have
    "setPrivileges l c a p (JStr s) = setPrivileges l c a p (JArray (split_space s))"
    by (simp only: setPrivileges_def same)
  moreover have "\<forall>t \<in> set (split_space s). CHR '' '' \<notin> set t"
    by (simp add: split_space_no_space)
  moreover have "split_space ''alice bob   carol'' = [''alice'', ''bob'', [], [], ''carol'']"
    by simp
  ultimately show ?thesis
    using split_space_join [of s] length_split_space [of s] by blast
qed

theorem split_space_pieces_witness:
  "calls (snd (join l0 (JStr ''#a  #b''))) = [Join ''#a'', Join [], Join ''#b'']
   \<and> CHR '' '' \<notin> set ''#a'' \<union> set [] \<union> set ''#b''
   \<and> length (split_space ''#a  #b'') = 3"
proof -
  have pieces: "split_space ''#a  #b'' = [''#a'', [], ''#b'']"
    by simp
  from split_space_pieces [of l0 "''#a  #b''"]
  have "join l0 (JStr ''#a  #b'') = join l0 (JArray (split_space ''#a  #b''))"
    and "\<forall>t \<in> set (split_space ''#a  #b''). CHR '' '' \<notin> set t"
    and "length (split_space ''#a  #b'') = Suc (count_list ''#a  #b'' CHR '' '')"
    by blast+
  then show ?thesis
    by (simp add: pieces join_def split_if_string_def instanceof_Array_def
          return_undefined_def l0_def)
qed

theorem split_space_whitespace_counterexample:
  "instanceof_Array (split_if_string (JStr ''alice bob   carol'')) =
     Some [''alice'', ''bob'', [], [], ''carol'']
   \<and> instanceof_Array (split_if_string (JStr ''alice bob   carol'')) \<noteq>
     Some [''alice'', ''bob'', ''carol'']"
  by (simp add: split_if_string_def instanceof_Array_def)

section \<open>Properties of sendMessage\<close>

lemma forEach_send:
  "forEach xs (\<lambda>x l'. send l' (f x)) l = l\<lparr>calls := calls l @ map (\<lambda>x. Send (f x)) xs\<rparr>"
  by (induction xs arbitrary: l) (simp_all add: send_def)

lemma sendMessage_accepted:
  assumes "typeof_string target" and "assert_match type re_type"
    and "instanceof_Array (split_message lines) = Some ls"
  shows "sendMessage l type target lines prefix =
           (Inr JUndefined,
            l\<lparr>calls := calls l @
                 map (\<lambda>line. Send [the_string type, the_string target, line])
                   (add_prefix prefix ls)\<rparr>)"
  using assms
  by (simp add: sendMessage_def return_undefined_def forEach_send)

lemma utf8_decode_ascii:
  "\<forall>c \<in> set b. (of_char c :: nat) \<le> 0x7F \<Longrightarrow> utf8_decode idle b = b"
  by (induction b) (simp_all add: decode_byte_def start_byte_def idle_def)

lemma toString_ascii: "\<forall>c \<in> set b. (of_char c :: nat) \<le> 0x7F \<Longrightarrow> toString b = b"
  by (simp add: toString_def utf8_decode_ascii)

lemma toString_ill_formed:
  "toString [CHR ''a'', CHR 0xC3, CHR ''b''] = ''a'' @ REPLACEMENT @ ''b''
   \<and> toString [CHR ''a'', CHR 0xC3, CHR 0xA9] = [CHR ''a'', CHR 0xC3, CHR 0xA9]
   \<and> toString [CHR 0xFF, LF] = REPLACEMENT @ [LF]"
  by (simp add: toString_def decode_byte_def start_byte_def idle_def LF_def)

lemma split_lines_example:
  "split_lines (''a'' @ [CR, LF] @ ''b'' @ [CR, LF, CR, LF] @ ''c'') = [''a'', ''b'', ''c'']"
  by (simp add: split_lines_def is_crlf_def CR_def LF_def)

text \<open>
  Claim C2, as the code has it. The two line breaks between \<open>b\<close> and \<open>c\<close> are one run of
  CR and LF characters and so one delimiter: the string gives the three lines a, b, c,
  with no empty line, and the buffer of the same content gives the same three lines.
  \<^verbatim>\<open>sendMessage\<close> sends one command for each of them.
\<close>

theorem sendMessage_crlf_run:
  "split_message (JStr (''a'' @ [CR, LF] @ ''b'' @ [CR, LF, CR, LF] @ ''c'')) =
     JArray [''a'', ''b'', ''c'']
   \<and> split_message (JBuffer (''a'' @ [CR, LF] @ ''b'' @ [CR, LF, CR, LF] @ ''c'')) =
     JArray [''a'', ''b'', ''c'']
   \<and> sendMessage l (JStr ''PRIVMSG'') (JStr target)
       (JStr (''a'' @ [CR, LF] @ ''b'' @ [CR, LF, CR, LF] @ ''c'')) None =
     (Inr JUndefined,
      l\<lparr>calls := calls l @
           [Send [''PRIVMSG'', target, ''a''], Send [''PRIVMSG'', target, ''b''],
            Send [''PRIVMSG'', target, ''c'']]\<rparr>)
   \<and> sendMessage l (JStr ''PRIVMSG'') (JStr target)
       (JBuffer (''a'' @ [CR, LF] @ ''b'' @ [CR, LF, CR, LF] @ ''c'')) None =
     (Inr JUndefined,
      l\<lparr>calls := calls l @
           [Send [''PRIVMSG'', target, ''a''], Send [''PRIVMSG'', target, ''b''],
            Send [''PRIVMSG'', target, ''c'']]\<rparr>)"
proof -
  let ?x = "''a'' @ [CR, LF] @ ''b'' @ [CR, LF, CR, LF] @ ''c''"
  have s: "split_message (JStr ?x) = JArray [''a'', ''b'', ''c'']"
    by (simp only: split_message_def jsval.case split_lines_example)
  have "toString ?x = ?x"
    by (rule toString_ascii) (simp add: CR_def LF_def)
  then have b: "split_message (JBuffer ?x) = JArray [''a'', ''b'', ''c'']"
    by (simp only: split_message_def jsval.case split_lines_example) simp
  have t: "typeof_string (JStr target)"
    by (simp add: typeof_string_def)
  have m: "assert_match (JStr ''PRIVMSG'') re_type"
    by (simp add: assert_match_def regexp_test_def re_type_def toUpperCase_def)
  have "sendMessage l (JStr ''PRIVMSG'') (JStr target) (JStr ?x) None =
     (Inr JUndefined,
      l\<lparr>calls := calls l @
           [Send [''PRIVMSG'', target, ''a''], Send [''PRIVMSG'', target, ''b''],
            Send [''PRIVMSG'', target, ''c'']]\<rparr>)"
    using sendMessage_accepted [OF t m, of "JStr ?x" "[''a'', ''b'', ''c'']" l None]
    by (simp only: s instanceof_Array_def jsval.case add_prefix_def option.case the_string_def)
       simp
  moreover have "sendMessage l (JStr ''PRIVMSG'') (JStr target) (JBuffer ?x) None =
     (Inr JUndefined,
      l\<lparr>calls := calls l @
           [Send [''PRIVMSG'', target, ''a''], Send [''PRIVMSG'', target, ''b''],
            Send [''PRIVMSG'', target, ''c'']]\<rparr>)"
    using sendMessage_accepted [OF t m, of "JBuffer ?x" "[''a'', ''b'', ''c'']" l None]
    by (simp only: b instanceof_Array_def jsval.case add_prefix_def option.case the_string_def)
       simp
  ultimately show ?thesis
    using s b by blast
qed

theorem sendMessage_empty_segment_counterexample:
  "split_message (JStr (''a'' @ [CR, LF] @ ''b'' @ [CR, LF, CR, LF] @ ''c'')) \<noteq>
     JArray [''a'', ''b'', [], ''c'']"
  by (simp only: split_message_def jsval.case split_lines_example) simp

text \<open>
  Where a string and a buffer do differ: a run at the start or at the end of the text
  leaves an empty line, which only the buffer branch filters out.
\<close>

lemma split_message_trailing_run:
  "split_message (JStr (''a'' @ [CR, LF])) = JArray [''a'', []]
   \<and> split_message (JBuffer (''a'' @ [CR, LF])) = JArray [''a'']"
proof -
  have "toString (''a'' @ [CR, LF]) = ''a'' @ [CR, LF]"
    by (rule toString_ascii) (simp add: CR_def LF_def)
  then show ?thesis
    by (simp add: split_message_def split_lines_def is_crlf_def CR_def LF_def)
qed

section \<open>Properties of getTopic, getNick and setNick\<close>

text \<open>
  Claim C4, as the code has it. \<^verbatim>\<open>getTopic\<close> returns \<^verbatim>\<open>undefined\<close> exactly when the
  channel has no cached data, or the data has no topic, or the topic is the empty string.
  Otherwise it returns the topic, followed by \<open>set by\<close> and the setter exactly when a
  setter is recorded and is not the empty string.
\<close>

theorem getTopic_result:
  "(fst (getTopic l channel) = Inr JUndefined) =
     (chanData l channel = None
      \<or> (\<exists>d. chanData l channel = Some d \<and> (topic d = None \<or> topic d = Some [])))
   \<and> (\<forall>d t. chanData l channel = Some d \<and> topic d = Some t \<and> t \<noteq> [] \<longrightarrow>
         (\<forall>b. topicBy d = Some b \<and> b \<noteq> [] \<longrightarrow>
            fst (getTopic l channel) = Inr (JStr (t @ '' set by '' @ b)))
       \<and> (topicBy d = None \<or> topicBy d = Some [] \<longrightarrow>
            fst (getTopic l channel) = Inr (JStr t)))"
  by (auto simp: getTopic_def truthy_def Let_def split: option.splits)

theorem getTopic_result_witness:
  "fst (getTopic l_hello ''#rx'') = Inr (JStr ''hello set by alice'')
   \<and> fst (getTopic l_anonymous ''#rx'') = Inr (JStr ''hello'')
   \<and> fst (getTopic l0 ''#rx'') = Inr JUndefined"
proof -
  have "chanData l_hello ''#rx'' = Some \<lparr>topic = Some ''hello'', topicBy = Some ''alice''\<rparr>"
    by (simp add: l_hello_def)
  with getTopic_result [of l_hello "''#rx''"]
  have 1: "fst (getTopic l_hello ''#rx'') = Inr (JStr ''hello set by alice'')"
    by simp
  have "chanData l_anonymous ''#rx'' = Some \<lparr>topic = Some ''hello'', topicBy = None\<rparr>"
    by (simp add: l_anonymous_def)
  with getTopic_result [of l_anonymous "''#rx''"]
  have 2: "fst (getTopic l_anonymous ''#rx'') = Inr (JStr ''hello'')"
    by simp
  have "chanData l0 ''#rx'' = None"
    by (simp add: l0_def)
  with getTopic_result [of l0 "''#rx''"]
  have 3: "fst (getTopic l0 ''#rx'') = Inr JUndefined"
    by simp
  from 1 2 3 show ?thesis
    by simp
qed

theorem getTopic_cleared_counterexample:
  "chanData l_cleared ''#rx'' = Some \<lparr>topic = Some [], topicBy = Some ''alice''\<rparr>
   \<and> fst (getTopic l_cleared ''#rx'') = Inr JUndefined"
  by (simp add: l_cleared_def getTopic_def truthy_def)

text \<open>
  Claim C9. \<^verbatim>\<open>getTopic\<close> leaves the connection object as it found it, the cached topic
  and setter of every channel included: the suffix is added to the local variable.
\<close>

theorem getTopic_reads_only: "snd (getTopic l channel) = l"
  by (simp add: getTopic_def Let_def split: option.splits)

text \<open>
  Claim C8, as the code has it. \<^verbatim>\<open>setNick\<close> sends one \<^verbatim>\<open>NICK\<close> command and returns
  \<^verbatim>\<open>undefined\<close>; the current nick is what the separate accessor \<^verbatim>\<open>getNick\<close> returns,
  which sends nothing.
\<close>

theorem setNick_returns_undefined:
  "setNick l n = (Inr JUndefined, l\<lparr>calls := calls l @ [Send [''NICK'', n]]\<rparr>)
   \<and> getNick l = (Inr (JStr (nick l)), l)"
  by (simp add: setNick_def getNick_def return_undefined_def send_def)

theorem setNick_passthrough_counterexample:
  "fst (setNick l0 ''rx2'') = Inr JUndefined
   \<and> fst (getNick l0) = Inr (JStr ''rxbot'')
   \<and> fst (getNick (snd (setNick l0 ''rx2''))) = Inr (JStr ''rxbot'')"
  by (simp add: setNick_def getNick_def return_undefined_def send_def l0_def)

section \<open>Properties of kick\<close>

lemma kick_calls:
  assumes "instanceof_Array (split_if_string nicks) = Some ns"
  shows "kick l channel nicks reason =
           (Inr JUndefined,
            l\<lparr>calls := calls l @ map (\<lambda>n. Send (kick_command channel reason n)) ns\<rparr>)"
  using assms by (simp add: kick_def return_undefined_def forEach_send)

lemma kick_command_cases:
  "kick_command channel reason n =
     [''KICK'', channel, n] @ (case reason of None \<Rightarrow> [] | Some r \<Rightarrow> if r = [] then [] else [r])"
  by (simp add: kick_command_def truthy_def split: option.splits)

text \<open>
  Claim C7, as the code has it. For a nick array, or a nick string cut at its spaces,
  \<^verbatim>\<open>kick\<close> sends one \<^verbatim>\<open>KICK\<close> command per nick, in the order of the list: the channel,
  the nick, and the reason as a last token exactly when the reason is a string that is
  not empty. A nick argument of another type fails the assertion and sends nothing.
  \<^verbatim>\<open>kick("#chan", "bob carol", "spam")\<close> sends two commands that end in \<open>spam\<close>.
\<close>

theorem kick_commands:
  "kick l channel (JArray ns) reason =
     (Inr JUndefined,
      l\<lparr>calls := calls l @
           map (\<lambda>n. Send ([''KICK'', channel, n] @
                    (case reason of None \<Rightarrow> [] | Some r \<Rightarrow> if r = [] then [] else [r]))) ns\<rparr>)
   \<and> kick l channel (JStr s) reason = kick l channel (JArray (split_space s)) reason
   \<and> kick l channel JUndefined reason = (Inl AssertionError, l)
   \<and> kick l channel JNull reason = (Inl AssertionError, l)
   \<and> kick l channel (JBool b) reason = (Inl AssertionError, l)
   \<and> kick l channel (JNum i) reason = (Inl AssertionError, l)
   \<and> kick l channel (JBuffer bytes) reason = (Inl AssertionError, l)
   \<and> kick l ''#chan'' (JStr ''bob carol'') (Some ''spam'') =
     (Inr JUndefined,
      l\<lparr>calls := calls l @
           [Send [''KICK'', ''#chan'', ''bob'', ''spam''],
            Send [''KICK'', ''#chan'', ''carol'', ''spam'']]\<rparr>)"
proof -
  have "kick l channel (JArray ns) reason =
     (Inr JUndefined,
      l\<lparr>calls := calls l @
           map (\<lambda>n. Send ([''KICK'', channel, n] @
                    (case reason of None \<Rightarrow> [] | Some r \<Rightarrow> if r = [] then [] else [r]))) ns\<rparr>)"
    using kick_calls [of "JArray ns" ns l channel reason]
    by (simp add: split_if_string_def instanceof_Array_def kick_command_cases)
  moreover have "kick l channel (JStr s) reason = kick l channel (JArray (split_space s)) reason"
    by (simp add: kick_def split_if_string_def)
  moreover have "kick l ''#chan'' (JStr ''bob carol'') (Some ''spam'') =
     (Inr JUndefined,
      l\<lparr>calls := calls l @
           [Send [''KICK'', ''#chan'', ''bob'', ''spam''],
            Send [''KICK'', ''#chan'', ''carol'', ''spam'']]\<rparr>)"
    using kick_calls [of "JStr ''bob carol''" "[''bob'', ''carol'']" l "''#chan''" "Some ''spam''"]
    by (simp add: split_if_string_def instanceof_Array_def kick_command_cases)
  ultimately show ?thesis
    by (simp add: kick_def split_if_string_def instanceof_Array_def throw_def)
qed

theorem kick_reason_provided_counterexample:
  "kick l0 ''#chan'' (JArray [''bob'']) (Some []) =
     (Inr JUndefined, l0\<lparr>calls := [Send [''KICK'', ''#chan'', ''bob'']]\<rparr>)"
  by (simp add: kick_def split_if_string_def instanceof_Array_def return_undefined_def
        send_def kick_command_def truthy_def l0_def)

text \<open>
  Claim C10. With the empty string as the reason, every \<^verbatim>\<open>KICK\<close> command is the channel
  and the nick alone: the reason is pushed only when it is truthy, which for a string
  means not empty, and an omitted reason behaves in the same way.
\<close>

theorem kick_empty_reason:
  "kick l channel (JArray ns) (Some []) =
     (Inr JUndefined, l\<lparr>calls := calls l @ map (\<lambda>n. Send [''KICK'', channel, n]) ns\<rparr>)
   \<and> kick l channel (JStr s) (Some []) =
     (Inr JUndefined,
      l\<lparr>calls := calls l @ map (\<lambda>n. Send [''KICK'', channel, n]) (split_space s)\<rparr>)
   \<and> kick l channel nicks (Some []) = kick l channel nicks None
   \<and> truthy reason = (\<exists>r. reason = Some r \<and> r \<noteq> [])
   \<and> (\<forall>r. r \<noteq> [] \<longrightarrow> kick_command channel (Some r) n = [''KICK'', channel, n, r])"
proof -
  have "kick l channel (JArray ns) (Some []) =
     (Inr JUndefined, l\<lparr>calls := calls l @ map (\<lambda>n. Send [''KICK'', channel, n]) ns\<rparr>)"
    using kick_calls [of "JArray ns" ns l channel "Some []"]
    by (simp add: split_if_string_def instanceof_Array_def kick_command_cases)
  moreover have "kick l channel (JStr s) (Some []) =
     (Inr JUndefined,
      l\<lparr>calls := calls l @ map (\<lambda>n. Send [''KICK'', channel, n]) (split_space s)\<rparr>)"
    using kick_calls [of "JStr s" "split_space s" l channel "Some []"]
    by (simp add: split_if_string_def instanceof_Array_def kick_command_cases)
  moreover have "kick l channel nicks (Some []) = kick l channel nicks None"
    by (simp add: kick_def kick_command_cases split: option.splits)
  moreover have "truthy reason = (\<exists>r. reason = Some r \<and> r \<noteq> [])"
    by (simp add: truthy_def split: option.splits)
  moreover have "\<forall>r. r \<noteq> [] \<longrightarrow> kick_command channel (Some r) n = [''KICK'', channel, n, r]"
    by (simp add: kick_command_cases)
  ultimately show ?thesis
    by blast
qed

theorem kick_empty_reason_witness:
  "kick l0 ''#chan'' (JStr ''bob carol'') (Some []) =
     (Inr JUndefined,
      l0\<lparr>calls := [Send [''KICK'', ''#chan'', ''bob''], Send [''KICK'', ''#chan'', ''carol'']]\<rparr>)
   \<and> kick_command ''#chan'' (Some ''spam'') ''bob'' = [''KICK'', ''#chan'', ''bob'', ''spam'']"
proof -
  have ne: "''spam'' \<noteq> []"
    by simp
  from kick_empty_reason [of l0 "''#chan''" "[]" "''bob carol''" JNull None "''bob''"]
  have "kick l0 ''#chan'' (JStr ''bob carol'') (Some []) =
     (Inr JUndefined,
      l0\<lparr>calls := calls l0 @ map (\<lambda>n. Send [''KICK'', ''#chan'', n]) (split_space ''bob carol'')\<rparr>)"
    and "\<forall>r. r \<noteq> [] \<longrightarrow> kick_command ''#chan'' (Some r) ''bob'' = [''KICK'', ''#chan'', ''bob'', r]"
    by blast+
  with ne show ?thesis
    by (simp add: l0_def)
qed

section \<open>Which calls are accepted\<close>

lemma occurs_in_single: "occurs_in [x] s \<longleftrightarrow> x \<in> set s"
  by (induction s) auto

lemma toUpperCase_V: "toUpperCase c = CHR ''V'' \<longleftrightarrow> c = CHR ''v'' \<or> c = CHR ''V''"
  by (simp add: toUpperCase_def)

lemma toUpperCase_H: "toUpperCase c = CHR ''H'' \<longleftrightarrow> c = CHR ''h'' \<or> c = CHR ''H''"
  by (simp add: toUpperCase_def)

lemma toUpperCase_O: "toUpperCase c = CHR ''O'' \<longleftrightarrow> c = CHR ''o'' \<or> c = CHR ''O''"
  by (simp add: toUpperCase_def)

lemma re_action_test:
  "regexp_test re_action s \<longleftrightarrow> CHR ''+'' \<in> set s \<or> CHR ''-'' \<in> set s"
  by (simp add: regexp_test_def re_action_def occurs_in_single)

lemma re_privilege_test:
  "regexp_test re_privilege s \<longleftrightarrow> set s \<inter> set ''vhoVHO'' \<noteq> {}"
proof -
  have up: "toUpperCase CHR ''v'' = CHR ''V''" "toUpperCase CHR ''h'' = CHR ''H''"
    "toUpperCase CHR ''o'' = CHR ''O''"
    by (simp_all add: toUpperCase_def)
  have "regexp_test re_privilege s \<longleftrightarrow>
          CHR ''V'' \<in> toUpperCase ` set s \<or> CHR ''H'' \<in> toUpperCase ` set s
          \<or> CHR ''O'' \<in> toUpperCase ` set s"
    by (simp add: regexp_test_def re_privilege_def occurs_in_single up)
  also have "\<dots> \<longleftrightarrow>
          (\<exists>c \<in> set s. toUpperCase c = CHR ''V'' \<or> toUpperCase c = CHR ''H''
                      \<or> toUpperCase c = CHR ''O'')"
  proof -
    have "\<And>x. x \<in> toUpperCase ` set s \<longleftrightarrow> (\<exists>c \<in> set s. toUpperCase c = x)"
      by auto
    then show ?thesis
      by blast
  qed
  also have "\<dots> \<longleftrightarrow> set s \<inter> set ''vhoVHO'' \<noteq> {}"
    by (auto simp: toUpperCase_V toUpperCase_H toUpperCase_O)
  finally show ?thesis .
qed

lemma setPrivileges_rejected:
  assumes "\<not> (typeof_string channel \<and> assert_match action re_action
              \<and> assert_match privilege re_privilege
              \<and> instanceof_Array (split_if_string nicks) \<noteq> None)"
  shows "setPrivileges l channel action privilege nicks = (Inl AssertionError, l)"
  using assms by (auto simp: setPrivileges_def throw_def)

lemma sendMessage_rejected:
  assumes "\<not> (typeof_string target \<and> assert_match type re_type
              \<and> instanceof_Array (split_message lines) \<noteq> None)"
  shows "sendMessage l type target lines prefix = (Inl AssertionError, l)"
  using assms by (auto simp: sendMessage_def throw_def)

text \<open>
  Claim C6, as the code has it. \<^verbatim>\<open>setPrivileges\<close> returns normally exactly when the
  channel is a string (the empty string included), the action is a string in which
  \<open>+\<close> or \<open>-\<close> occurs, the privilege is a string in which one of the letters v, h, o
  occurs in either case, and the nicks are a string or an array. Every other call throws
  the assertion error and leaves the connection as it was.
\<close>

theorem setPrivileges_accepts_iff:
  "(fst (setPrivileges l channel action privilege nicks) = Inr JUndefined) =
     ((\<exists>c. channel = JStr c)
      \<and> (\<exists>a. action = JStr a \<and> (CHR ''+'' \<in> set a \<or> CHR ''-'' \<in> set a))
      \<and> (\<exists>p. privilege = JStr p \<and> set p \<inter> set ''vhoVHO'' \<noteq> {})
      \<and> ((\<exists>s. nicks = JStr s) \<or> (\<exists>ns. nicks = JArray ns)))
   \<and> (fst (setPrivileges l channel action privilege nicks) = Inr JUndefined
      \<or> setPrivileges l channel action privilege nicks = (Inl AssertionError, l))"
proof -
  have ch: "typeof_string channel \<longleftrightarrow> (\<exists>c. channel = JStr c)"
    by (cases channel) (simp_all add: typeof_string_def)
  have ac: "assert_match action re_action \<longleftrightarrow>
              (\<exists>a. action = JStr a \<and> (CHR ''+'' \<in> set a \<or> CHR ''-'' \<in> set a))"
    by (cases action) (simp_all add: assert_match_def re_action_test)
  have pr: "assert_match privilege re_privilege \<longleftrightarrow>
              (\<exists>p. privilege = JStr p \<and> set p \<inter> set ''vhoVHO'' \<noteq> {})"
    by (cases privilege) (simp_all only: assert_match_def jsval.case re_privilege_test, simp_all)
  have ni: "instanceof_Array (split_if_string nicks) \<noteq> None \<longleftrightarrow>
              (\<exists>s. nicks = JStr s) \<or> (\<exists>ns. nicks = JArray ns)"
    by (cases nicks) (simp_all add: instanceof_Array_def split_if_string_def)
  show ?thesis
  proof (cases "typeof_string channel \<and> assert_match action re_action
                \<and> assert_match privilege re_privilege
                \<and> instanceof_Array (split_if_string nicks) \<noteq> None")
    case True
    then obtain ns where "instanceof_Array (split_if_string nicks) = Some ns"
      by blast
    with True have "fst (setPrivileges l channel action privilege nicks) = Inr JUndefined"
      by (simp add: setPrivileges_accepted)
    with True ch ac pr ni show ?thesis
      by blast
  next
    case False
    then have "setPrivileges l channel action privilege nicks = (Inl AssertionError, l)"
      by (rule setPrivileges_rejected)
    moreover from this
    have "fst (setPrivileges l channel action privilege nicks) \<noteq> Inr JUndefined"
      by simp
    ultimately show ?thesis
      using False ch ac pr ni by blast
  qed
qed

theorem setPrivileges_accepts_iff_witness:
  "fst (setPrivileges l0 (JStr ''#rx'') (JStr ''-'') (JStr ''H'') (JStr ''n1 n2'')) =
     Inr JUndefined
   \<and> setPrivileges l0 (JStr ''#rx'') (JStr ''grant'') (JStr ''o'') (JStr ''n1 n2'') =
     (Inl AssertionError, l0)"
proof -
  have "CHR ''-'' \<in> set ''-''" and "set ''H'' \<inter> set ''vhoVHO'' \<noteq> {}"
    by simp_all
  with setPrivileges_accepts_iff [of l0 "JStr ''#rx''" "JStr ''-''" "JStr ''H''" "JStr ''n1 n2''"]
  have 1: "fst (setPrivileges l0 (JStr ''#rx'') (JStr ''-'') (JStr ''H'') (JStr ''n1 n2'')) =
     Inr JUndefined"
    by blast
  have "CHR ''+'' \<notin> set ''grant''" and "CHR ''-'' \<notin> set ''grant''"
    by simp_all
  with setPrivileges_accepts_iff [of l0 "JStr ''#rx''" "JStr ''grant''" "JStr ''o''" "JStr ''n1 n2''"]
  have 2: "setPrivileges l0 (JStr ''#rx'') (JStr ''grant'') (JStr ''o'') (JStr ''n1 n2'') =
     (Inl AssertionError, l0)"
    by blast
  from 1 2 show ?thesis
    by simp
qed

theorem setPrivileges_loose_validation_counterexample:
  "fst (setPrivileges l0 (JStr []) (JStr ''+'') (JStr ''o'') (JArray [''n1''])) = Inr JUndefined
   \<and> fst (setPrivileges l0 (JStr ''#rx'') (JStr ''x+y'') (JStr ''o'') (JArray [''n1''])) =
       Inr JUndefined
   \<and> fst (setPrivileges l0 (JStr ''#rx'') (JStr ''+'') (JStr ''voice'') (JArray [''n1''])) =
       Inr JUndefined
   \<and> fst (setPrivileges l0 (JStr ''#rx'') (JStr ''+'') (JStr ''o'') JNull) =
       Inl AssertionError"
  by (simp add: setPrivileges_def typeof_string_def assert_match_def regexp_test_def
        re_action_def re_privilege_def toUpperCase_def split_if_string_def
        instanceof_Array_def return_undefined_def throw_def)

lemma starts_with_iff: "starts_with p s \<longleftrightarrow> (\<exists>v. s = p @ v)"
  by (induction p s rule: starts_with.induct) auto

lemma occurs_in_iff: "occurs_in p s \<longleftrightarrow> (\<exists>u v. s = u @ p @ v)"
proof (induction s)
  case Nil
  show ?case by auto
next
  case (Cons c cs)
  have "(\<exists>u v. c # cs = u @ p @ v) \<longleftrightarrow> (\<exists>v. c # cs = p @ v) \<or> (\<exists>u v. cs = u @ p @ v)"
  proof
    assume "\<exists>u v. c # cs = u @ p @ v"
    then obtain u v where uv: "c # cs = u @ p @ v"
      by blast
    show "(\<exists>v. c # cs = p @ v) \<or> (\<exists>u v. cs = u @ p @ v)"
    proof (cases u)
      case Nil
      with uv show ?thesis by auto
    next
      case (Cons x xs)
      with uv have "cs = xs @ p @ v" by simp
      then show ?thesis by blast
    qed
  next
    assume "(\<exists>v. c # cs = p @ v) \<or> (\<exists>u v. cs = u @ p @ v)"
    then show "\<exists>u v. c # cs = u @ p @ v"
    proof
      assume "\<exists>v. c # cs = p @ v"
      then obtain v where "c # cs = [] @ p @ v" by auto
      then show ?thesis by blast
    next
      assume "\<exists>u v. cs = u @ p @ v"
      then obtain u v where "c # cs = (c # u) @ p @ v" by auto
      then show ?thesis by blast
    qed
  qed
  with Cons show ?case
    by (simp add: starts_with_iff)
qed

lemma re_type_test:
  "regexp_test re_type s \<longleftrightarrow>
     (\<exists>u v. map toUpperCase s = u @ ''PRIVMSG'' @ v \<or> map toUpperCase s = u @ ''NOTICE'' @ v)"
proof -
  have "regexp_test re_type s \<longleftrightarrow>
          occurs_in ''PRIVMSG'' (map toUpperCase s) \<or> occurs_in ''NOTICE'' (map toUpperCase s)"
    by (simp add: regexp_test_def re_type_def toUpperCase_def del: occurs_in.simps)
  then show ?thesis
    by (simp only: occurs_in_iff) blast
qed

lemma typeof_string_iff: "typeof_string v \<longleftrightarrow> (\<exists>s. v = JStr s)"
  by (cases v) (simp_all add: typeof_string_def)

lemma assert_match_action_iff:
  "assert_match action re_action \<longleftrightarrow>
     (\<exists>a. action = JStr a \<and> (CHR ''+'' \<in> set a \<or> CHR ''-'' \<in> set a))"
  by (cases action) (simp_all add: assert_match_def re_action_test)

lemma assert_match_privilege_iff:
  "assert_match privilege re_privilege \<longleftrightarrow>
     (\<exists>p. privilege = JStr p \<and> set p \<inter> set ''vhoVHO'' \<noteq> {})"
  by (cases privilege) (simp_all only: assert_match_def jsval.case re_privilege_test, simp_all)

lemma assert_match_type_iff:
  "assert_match type re_type \<longleftrightarrow>
     (\<exists>ty u v. type = JStr ty
        \<and> (map toUpperCase ty = u @ ''PRIVMSG'' @ v \<or> map toUpperCase ty = u @ ''NOTICE'' @ v))"
  by (cases type) (simp_all only: assert_match_def jsval.case re_type_test, simp_all)

lemma nicks_array_iff:
  "instanceof_Array (split_if_string nicks) \<noteq> None \<longleftrightarrow>
     (\<exists>s. nicks = JStr s) \<or> (\<exists>ns. nicks = JArray ns)"
  by (cases nicks) (simp_all add: instanceof_Array_def split_if_string_def)

lemma lines_array_iff:
  "instanceof_Array (split_message lines) \<noteq> None \<longleftrightarrow>
     (\<exists>s. lines = JStr s) \<or> (\<exists>b. lines = JBuffer b) \<or> (\<exists>ls. lines = JArray ls)"
  by (cases lines) (simp_all add: instanceof_Array_def split_message_def)

text \<open>
  Claim C5, as the code has it. A call of \<^verbatim>\<open>setPrivileges\<close> or \<^verbatim>\<open>sendMessage\<close> fails
  validation when it fails one of the assertions of the code: the channel or the target is
  not a string; the action is not a string in which \<open>+\<close> or \<open>-\<close> occurs; the privilege is
  not a string in which one of the letters v, h, o occurs in either case; the message type
  is not a string in which PRIVMSG or NOTICE occurs in any case; the nicks are neither a
  string nor an array; the lines are neither a string, a buffer nor an array. Such a call
  throws the assertion error and the connection is as it was: nothing has been sent. The
  privilege \<open>x\<close> is such a call. A token that the pattern matches somewhere passes, however
  it reads otherwise: the call returns normally, and its commands, built from the whole
  token, are sent.
\<close>

theorem assertion_failure_sends_nothing:
  "(\<not> ((\<exists>c. channel = JStr c)
        \<and> (\<exists>a. action = JStr a \<and> (CHR ''+'' \<in> set a \<or> CHR ''-'' \<in> set a))
        \<and> (\<exists>p. privilege = JStr p \<and> set p \<inter> set ''vhoVHO'' \<noteq> {})
        \<and> ((\<exists>s. nicks = JStr s) \<or> (\<exists>ns. nicks = JArray ns)))
      \<longrightarrow> setPrivileges l channel action privilege nicks = (Inl AssertionError, l))
   \<and> (\<not> ((\<exists>t. target = JStr t)
           \<and> (\<exists>ty u v. type = JStr ty
                 \<and> (map toUpperCase ty = u @ ''PRIVMSG'' @ v
                    \<or> map toUpperCase ty = u @ ''NOTICE'' @ v))
           \<and> ((\<exists>s. lines = JStr s) \<or> (\<exists>b. lines = JBuffer b) \<or> (\<exists>ls. lines = JArray ls)))
      \<longrightarrow> sendMessage l type target lines prefix = (Inl AssertionError, l))
   \<and> setPrivileges l channel action (JStr ''x'') nicks = (Inl AssertionError, l)
   \<and> ((CHR ''+'' \<in> set a \<or> CHR ''-'' \<in> set a) \<and> set p \<inter> set ''vhoVHO'' \<noteq> {}
      \<longrightarrow> setPrivileges l (JStr c) (JStr a) (JStr p) (JArray ns) =
            (Inr JUndefined,
             l\<lparr>calls := calls l @
                  map (\<lambda>i. Send (batch_args c a p ns i)) [0..<batch_count (length ns)]\<rparr>))
   \<and> (map toUpperCase ty = u @ ''PRIVMSG'' @ v \<or> map toUpperCase ty = u @ ''NOTICE'' @ v
      \<longrightarrow> sendMessage l (JStr ty) (JStr t) (JArray ls) prefix =
            (Inr JUndefined,
             l\<lparr>calls := calls l @ map (\<lambda>line. Send [ty, t, line]) (add_prefix prefix ls)\<rparr>))"
proof -
  have 1: "\<not> ((\<exists>c. channel = JStr c)
        \<and> (\<exists>a. action = JStr a \<and> (CHR ''+'' \<in> set a \<or> CHR ''-'' \<in> set a))
        \<and> (\<exists>p. privilege = JStr p \<and> set p \<inter> set ''vhoVHO'' \<noteq> {})
        \<and> ((\<exists>s. nicks = JStr s) \<or> (\<exists>ns. nicks = JArray ns)))
      \<longrightarrow> setPrivileges l channel action privilege nicks = (Inl AssertionError, l)"
    using setPrivileges_rejected [of channel action privilege nicks l]
    by (simp only: typeof_string_iff assert_match_action_iff assert_match_privilege_iff
          nicks_array_iff) blast
  have 2: "\<not> ((\<exists>t. target = JStr t)
           \<and> (\<exists>ty u v. type = JStr ty
                 \<and> (map toUpperCase ty = u @ ''PRIVMSG'' @ v
                    \<or> map toUpperCase ty = u @ ''NOTICE'' @ v))
           \<and> ((\<exists>s. lines = JStr s) \<or> (\<exists>b. lines = JBuffer b) \<or> (\<exists>ls. lines = JArray ls)))
      \<longrightarrow> sendMessage l type target lines prefix = (Inl AssertionError, l)"
    using sendMessage_rejected [of target type lines l prefix]
    by (simp only: typeof_string_iff assert_match_type_iff lines_array_iff) blast
  have "\<not> assert_match (JStr ''x'') re_privilege"
    by (simp add: assert_match_def regexp_test_def re_privilege_def toUpperCase_def)
  then have 3: "setPrivileges l channel action (JStr ''x'') nicks = (Inl AssertionError, l)"
    by (simp add: setPrivileges_rejected)
  have 4: "(CHR ''+'' \<in> set a \<or> CHR ''-'' \<in> set a) \<and> set p \<inter> set ''vhoVHO'' \<noteq> {}
      \<longrightarrow> setPrivileges l (JStr c) (JStr a) (JStr p) (JArray ns) =
            (Inr JUndefined,
             l\<lparr>calls := calls l @
                  map (\<lambda>i. Send (batch_args c a p ns i)) [0..<batch_count (length ns)]\<rparr>)"
  proof
    assume ok: "(CHR ''+'' \<in> set a \<or> CHR ''-'' \<in> set a) \<and> set p \<inter> set ''vhoVHO'' \<noteq> {}"
    then have "assert_match (JStr a) re_action" and "assert_match (JStr p) re_privilege"
      by (simp_all only: assert_match_action_iff assert_match_privilege_iff) blast+
    moreover have "typeof_string (JStr c)"
      by (simp add: typeof_string_def)
    moreover have "instanceof_Array (split_if_string (JArray ns)) = Some ns"
      by (simp add: split_if_string_def instanceof_Array_def)
    ultimately show "setPrivileges l (JStr c) (JStr a) (JStr p) (JArray ns) =
            (Inr JUndefined,
             l\<lparr>calls := calls l @
                  map (\<lambda>i. Send (batch_args c a p ns i)) [0..<batch_count (length ns)]\<rparr>)"
      using setPrivileges_accepted [of "JStr c" "JStr a" "JStr p" "JArray ns" ns l]
      by (simp add: the_string_def)
  qed
  have 5: "map toUpperCase ty = u @ ''PRIVMSG'' @ v \<or> map toUpperCase ty = u @ ''NOTICE'' @ v
      \<longrightarrow> sendMessage l (JStr ty) (JStr t) (JArray ls) prefix =
            (Inr JUndefined,
             l\<lparr>calls := calls l @ map (\<lambda>line. Send [ty, t, line]) (add_prefix prefix ls)\<rparr>)"
  proof
    assume "map toUpperCase ty = u @ ''PRIVMSG'' @ v \<or> map toUpperCase ty = u @ ''NOTICE'' @ v"
    then have "assert_match (JStr ty) re_type"
      by (simp only: assert_match_type_iff) blast
    moreover have "typeof_string (JStr t)"
      by (simp add: typeof_string_def)
    moreover have "instanceof_Array (split_message (JArray ls)) = Some ls"
      by (simp add: split_message_def instanceof_Array_def)
    ultimately show "sendMessage l (JStr ty) (JStr t) (JArray ls) prefix =
            (Inr JUndefined,
             l\<lparr>calls := calls l @ map (\<lambda>line. Send [ty, t, line]) (add_prefix prefix ls)\<rparr>)"
      using sendMessage_accepted [of "JStr t" "JStr ty" "JArray ls" ls l prefix]
      by (simp add: the_string_def)
  qed
  from 1 2 3 4 5 show ?thesis
    by (intro conjI)
qed

theorem assertion_failure_sends_nothing_witness:
  "setPrivileges l0 (JStr ''#rx'') (JStr ''+'') (JStr ''o'') (JNum 7) = (Inl AssertionError, l0)
   \<and> setPrivileges l0 (JStr ''#rx'') (JStr ''grant'') (JStr ''o'') (JArray [''n1'']) =
       (Inl AssertionError, l0)
   \<and> sendMessage l0 (JStr ''PRIVMSG'') (JNum 7) (JStr ''hello'') None = (Inl AssertionError, l0)
   \<and> sendMessage l0 (JNum 7) (JStr ''bob'') (JStr ''hello'') None = (Inl AssertionError, l0)
   \<and> setPrivileges l0 (JStr ''#rx'') (JStr ''-'') (JStr ''V'') (JArray [''n1'']) =
       (Inr JUndefined, l0\<lparr>calls := [Send [''MODE'', ''#rx'', ''-V'', ''n1'']]\<rparr>)
   \<and> sendMessage l0 (JStr ''notice'') (JStr ''bob'') (JArray [''hello'']) None =
       (Inr JUndefined, l0\<lparr>calls := [Send [''notice'', ''bob'', ''hello'']]\<rparr>)
   \<and> calls l0 = []"
proof -
  from assertion_failure_sends_nothing
         [of "JStr ''#rx''" "JStr ''+''" "JStr ''o''" "JNum 7" l0]
  have 1: "setPrivileges l0 (JStr ''#rx'') (JStr ''+'') (JStr ''o'') (JNum 7) =
             (Inl AssertionError, l0)"
    by simp
  have "CHR ''+'' \<notin> set ''grant'' \<and> CHR ''-'' \<notin> set ''grant''"
    by simp
  with assertion_failure_sends_nothing
         [of "JStr ''#rx''" "JStr ''grant''" "JStr ''o''" "JArray [''n1'']" l0]
  have 2: "setPrivileges l0 (JStr ''#rx'') (JStr ''grant'') (JStr ''o'') (JArray [''n1'']) =
             (Inl AssertionError, l0)"
    by simp
  from assertion_failure_sends_nothing
         [of _ _ _ _ l0 "JNum 7" "JStr ''PRIVMSG''" "JStr ''hello''" None]
  have 3: "sendMessage l0 (JStr ''PRIVMSG'') (JNum 7) (JStr ''hello'') None =
             (Inl AssertionError, l0)"
    by simp
  from assertion_failure_sends_nothing
         [of _ _ _ _ l0 "JStr ''bob''" "JNum 7" "JStr ''hello''" None]
  have 4: "sendMessage l0 (JNum 7) (JStr ''bob'') (JStr ''hello'') None =
             (Inl AssertionError, l0)"
    by simp
  have "(CHR ''+'' \<in> set ''-'' \<or> CHR ''-'' \<in> set ''-'') \<and> set ''V'' \<inter> set ''vhoVHO'' \<noteq> {}"
    by simp
  with assertion_failure_sends_nothing
         [of _ _ _ _ l0 _ _ _ _ "''-''" "''V''" "''#rx''" "[''n1'']"]
  have "setPrivileges l0 (JStr ''#rx'') (JStr ''-'') (JStr ''V'') (JArray [''n1'']) =
          (Inr JUndefined,
           l0\<lparr>calls := calls l0 @
                map (\<lambda>i. Send (batch_args ''#rx'' ''-'' ''V'' [''n1''] i))
                  [0..<batch_count (length [''n1''])]\<rparr>)"
    by blast
  then have 5: "setPrivileges l0 (JStr ''#rx'') (JStr ''-'') (JStr ''V'') (JArray [''n1'']) =
       (Inr JUndefined, l0\<lparr>calls := [Send [''MODE'', ''#rx'', ''-V'', ''n1'']]\<rparr>)"
    by (simp add: batch_count_eq batch_args_def batch_size_def slice_def repeat_def l0_def)
  have "map toUpperCase ''notice'' = [] @ ''NOTICE'' @ []"
    by (simp add: toUpperCase_def)
  with assertion_failure_sends_nothing
         [of _ _ _ _ l0 _ _ _ None _ _ _ _ "''notice''" "[]" "[]" "''bob''" "[''hello'']"]
  have "sendMessage l0 (JStr ''notice'') (JStr ''bob'') (JArray [''hello'']) None =
          (Inr JUndefined,
           l0\<lparr>calls := calls l0 @
                map (\<lambda>line. Send [''notice'', ''bob'', line]) (add_prefix None [''hello''])\<rparr>)"
    by blast
  then have 6: "sendMessage l0 (JStr ''notice'') (JStr ''bob'') (JArray [''hello'']) None =
       (Inr JUndefined, l0\<lparr>calls := [Send [''notice'', ''bob'', ''hello'']]\<rparr>)"
    by (simp add: add_prefix_def l0_def)
  from 1 2 3 4 5 6 show ?thesis
    by (simp add: l0_def)
qed

theorem unrecognised_token_counterexample:
  "setPrivileges l0 (JStr ''#rx'') (JStr ''grant+'') (JStr ''o'') (JArray [''n1'']) =
     (Inr JUndefined, l0\<lparr>calls := [Send [''MODE'', ''#rx'', ''grant+o'', ''n1'']]\<rparr>)
   \<and> setPrivileges l0 (JStr ''#rx'') (JStr ''+'') (JStr ''hello'') (JArray [''n1'', ''n2'']) =
     (Inr JUndefined,
      l0\<lparr>calls := [Send [''MODE'', ''#rx'', ''+hellohello'', ''n1'', ''n2'']]\<rparr>)
   \<and> sendMessage l0 (JStr ''MYNOTICE'') (JStr ''bob'') (JArray [''hello'']) None =
     (Inr JUndefined, l0\<lparr>calls := [Send [''MYNOTICE'', ''bob'', ''hello'']]\<rparr>)"
proof -
  have t: "typeof_string (JStr ''#rx'')" "typeof_string (JStr ''bob'')"
    by (simp_all add: typeof_string_def)
  have a: "assert_match (JStr ''grant+'') re_action" "assert_match (JStr ''+'') re_action"
    by (simp_all add: assert_match_def regexp_test_def re_action_def)
  have p: "assert_match (JStr ''o'') re_privilege" "assert_match (JStr ''hello'') re_privilege"
    by (simp_all add: assert_match_def regexp_test_def re_privilege_def toUpperCase_def)
  have m: "assert_match (JStr ''MYNOTICE'') re_type"
    by (simp add: assert_match_def regexp_test_def re_type_def toUpperCase_def)
  have "setPrivileges l0 (JStr ''#rx'') (JStr ''grant+'') (JStr ''o'') (JArray [''n1'']) =
     (Inr JUndefined, l0\<lparr>calls := [Send [''MODE'', ''#rx'', ''grant+o'', ''n1'']]\<rparr>)"
    using setPrivileges_accepted [OF t(1) a(1) p(1), of "JArray [''n1'']" "[''n1'']" l0]
    by (simp add: split_if_string_def instanceof_Array_def the_string_def batch_count_eq
          batch_args_def batch_size_def slice_def repeat_def l0_def)
  moreover
  have "setPrivileges l0 (JStr ''#rx'') (JStr ''+'') (JStr ''hello'') (JArray [''n1'', ''n2'']) =
     (Inr JUndefined,
      l0\<lparr>calls := [Send [''MODE'', ''#rx'', ''+hellohello'', ''n1'', ''n2'']]\<rparr>)"
    using setPrivileges_accepted
            [OF t(1) a(2) p(2), of "JArray [''n1'', ''n2'']" "[''n1'', ''n2'']" l0]
    by (simp add: split_if_string_def instanceof_Array_def the_string_def batch_count_eq
          batch_args_def batch_size_def slice_def repeat_def l0_def)
  moreover
  have "sendMessage l0 (JStr ''MYNOTICE'') (JStr ''bob'') (JArray [''hello'']) None =
     (Inr JUndefined, l0\<lparr>calls := [Send [''MYNOTICE'', ''bob'', ''hello'']]\<rparr>)"
    using sendMessage_accepted [OF t(2) m, of "JArray [''hello'']" "[''hello'']" l0 None]
    by (simp add: split_message_def instanceof_Array_def the_string_def add_prefix_def l0_def)
  ultimately show ?thesis
    by simp
qed

end
